theory Spec2Isabelle
  imports Complex_Main "HOL-Library.Word" "HOL-Library.AList"
begin

section \<open>JavaScript strings\<close>

text \<open>
  A JavaScript string is a sequence of UTF-16 code units; \<open>s.length\<close> counts code units.
  \<open>js\<close> writes an ASCII literal of the source as such a sequence.
\<close>

type_synonym jschar = "16 word"
type_synonym jsstring = "jschar list"

definition js :: "string \<Rightarrow> jsstring" where
  "js s = map of_char s"

text \<open>
  \<open>String.prototype.trim\<close> removes white space and line terminators (ECMAScript
  \<open>WhiteSpace\<close> and \<open>LineTerminator\<close>) from both ends.
\<close>

definition isWhiteSpace :: "jschar \<Rightarrow> bool" where
  "isWhiteSpace c = (c \<in> set [0x9, 0xA, 0xB, 0xC, 0xD, 0x20, 0xA0, 0x1680,
     0x2000, 0x2001, 0x2002, 0x2003, 0x2004, 0x2005, 0x2006, 0x2007, 0x2008, 0x2009, 0x200A,
     0x2028, 0x2029, 0x202F, 0x205F, 0x3000, 0xFEFF])"

definition trim :: "jsstring \<Rightarrow> jsstring" where
  "trim s = rev (dropWhile isWhiteSpace (rev (dropWhile isWhiteSpace s)))"

definition startsWith :: "jsstring \<Rightarrow> jsstring \<Rightarrow> bool" where
  "startsWith s p = (take (length p) s = p)"

text \<open>The character class \<open>[0-9A-Fa-f\-]\<close> and the test \<open>/^[0-9A-Fa-f\-]+$/.test(s)\<close>.\<close>

definition isHexOrDash :: "jschar \<Rightarrow> bool" where
  "isHexOrDash c = ((0x30 \<le> c \<and> c \<le> 0x39) \<or> (0x41 \<le> c \<and> c \<le> 0x46)
     \<or> (0x61 \<le> c \<and> c \<le> 0x66) \<or> c = 0x2D)"

definition hexRegexTest :: "jsstring \<Rightarrow> bool" where
  "hexRegexTest s = (s \<noteq> [] \<and> list_all isHexOrDash s)"

section \<open>Decoded payloads\<close>

text \<open>
  The value \<open>data: unknown\<close> that \<open>processEvent\<close> hands to the extractor is either the
  result of \<open>JSON.parse\<close> or the object \<open>{ raw }\<close>: a JSON value. An object is the list of
  its properties in enumeration order (the order of \<open>Object.values\<close>); \<open>d[key]\<close> is
  \<open>map_of d key\<close>, with \<open>None\<close> for \<open>undefined\<close>. A number is only ever tested for its type and
  its truthiness.
\<close>

datatype json =
    JNull
  | JBool bool
  | JNum real
  | JStr jsstring
  | JArr "json list"
  | JObj "(jsstring \<times> json) list"

fun truthy :: "json \<Rightarrow> bool" where
  "truthy JNull = False"
| "truthy (JBool b) = b"
| "truthy (JNum x) = (x \<noteq> 0)"
| "truthy (JStr s) = (s \<noteq> [])"
| "truthy (JArr xs) = True"
| "truthy (JObj d) = True"

text \<open>\<open>if (id)\<close> for \<open>id: string | null\<close>: neither \<open>null\<close> nor the empty string.\<close>

definition idTruthy :: "jsstring option \<Rightarrow> bool" where
  "idTruthy r = (case r of None \<Rightarrow> False | Some s \<Rightarrow> s \<noteq> [])"

section \<open>Tag identifier extractor (lectura.ts, lines 200-295)\<close>

definition preferidos :: "jsstring list" where
  "preferidos = [js ''epc'', js ''tagId'', js ''tag_id'', js ''id'', js ''tagEPC'', js ''EPC'']"

text \<open>
  \<open>for (const key of preferidos) { const v = d[key];
       if (typeof v === 'string' && v.trim()) return v.trim(); }\<close>
\<close>

fun firstPreferido :: "(jsstring \<times> json) list \<Rightarrow> jsstring list \<Rightarrow> jsstring option" where
  "firstPreferido d [] = None"
| "firstPreferido d (key # keys) =
     (case map_of d key of
        Some (JStr v) \<Rightarrow> if trim v \<noteq> [] then Some (trim v) else firstPreferido d keys
      | _ \<Rightarrow> firstPreferido d keys)"

lemma size_value_lt:
  "(k, v) \<in> set d \<Longrightarrow> size v < Suc (size_list (size_prod (\<lambda>_. 0) size) d)"
  by (induction d) auto

lemma size_values_le:
  "size_list size (map snd d) \<le> size_list (size_prod (\<lambda>_. 0) size) d"
  by (induction d) auto

text \<open>
  \<open>extractTagId\<close>, with \<open>extractTagIdFirst\<close> for its three loops of the shape
  \<open>for (const x of xs) { const id = this.extractTagId(x); if (id) return id; }\<close>.
\<close>

text \<open>
  \<open>const id = e; if (id) return id; rest\<close> as \<open>returnIfId e rest\<close>.
\<close>

definition returnIfId :: "jsstring option \<Rightarrow> jsstring option \<Rightarrow> jsstring option" where
  "returnIfId r rest = (if idTruthy r then r else rest)"

function extractTagId :: "json \<Rightarrow> jsstring option"
  and extractTagIdFirst :: "json list \<Rightarrow> jsstring option"
where
  "extractTagId JNull = None"
| "extractTagId (JStr data) =
     (if length (trim data) \<ge> 6 \<and> hexRegexTest (trim data) then Some (trim data)
      else if length (trim data) > 0 then Some (trim data)
      else None)"
| "extractTagId (JArr items) = extractTagIdFirst items"
| "extractTagId (JObj d) =
     (case firstPreferido d preferidos of
        Some v \<Rightarrow> Some v
      | None \<Rightarrow>
          returnIfId (case map_of d (js ''tag'') of
                        Some tag \<Rightarrow> if truthy tag then extractTagId tag else None
                      | None \<Rightarrow> None)
         (returnIfId (case map_of d (js ''tags'') of
                        Some (JArr ts) \<Rightarrow> extractTagIdFirst ts
                      | _ \<Rightarrow> None)
         (returnIfId (case map_of d (js ''data'') of
                        Some dd \<Rightarrow> if truthy dd then extractTagId dd else None
                      | None \<Rightarrow> None)
         (extractTagIdFirst (map snd d)))))"
| "extractTagId (JBool b) = None"
| "extractTagId (JNum x) = None"
| "extractTagIdFirst [] = None"
| "extractTagIdFirst (item # rest) = returnIfId (extractTagId item) (extractTagIdFirst rest)"
  by pat_completeness auto

termination
proof (relation "measure (\<lambda>a. case a of Inl j \<Rightarrow> 2 * size j
                                         | Inr xs \<Rightarrow> 2 * size_list size xs + 1)",
       goal_cases)
  case 1
  show ?case by simp
next
  case (2 items)
  show ?case by simp
next
  case (3 d tag)
  from 3(2) have "(js ''tag'', tag) \<in> set d" by (rule map_of_SomeD)
  from size_value_lt [OF this] show ?case by simp
next
  case (4 d x2 ts)
  then have "(js ''tags'', JArr ts) \<in> set d" by (simp add: map_of_SomeD)
  from size_value_lt [OF this] show ?case by simp
next
  case (5 d dd)
  from 5(2) have "(js ''data'', dd) \<in> set d" by (rule map_of_SomeD)
  from size_value_lt [OF this] show ?case by simp
next
  case (6 d)
  from size_values_le [of d] show ?case by simp
next
  case (7 item rest)
  show ?case by simp
next
  case (8 item rest)
  show ?case by simp
qed

text \<open>
  \<open>extractAllTagIds\<close>. The closure \<open>add\<close> reads and extends the local set \<open>seen\<close>; it
  returns the id it accepted, or \<open>null\<close>.
\<close>

definition add :: "jsstring set \<Rightarrow> jsstring option \<Rightarrow> jsstring option \<times> jsstring set" where
  "add seen r =
     (case r of
        Some i \<Rightarrow> if i \<noteq> [] \<and> length i \<ge> 4 \<and> i \<notin> seen then (Some i, insert i seen)
                  else (None, seen)
      | None \<Rightarrow> (None, seen))"

text \<open>\<open>if (id) ids.push(id)\<close>\<close>

definition pushIfId :: "jsstring option \<Rightarrow> jsstring list \<Rightarrow> jsstring list" where
  "pushIfId r ids = (case r of Some i \<Rightarrow> if i \<noteq> [] then ids @ [i] else ids | None \<Rightarrow> ids)"

text \<open>\<open>for (const t of d['tags']) { const id = add(this.extractTagId(t)); if (id) ids.push(id); }\<close>\<close>

fun addTags :: "json list \<Rightarrow> jsstring set \<Rightarrow> jsstring list \<Rightarrow> jsstring list" where
  "addTags [] seen ids = ids"
| "addTags (t # ts) seen ids =
     (case add seen (extractTagId t) of (r, seen') \<Rightarrow> addTags ts seen' (pushIfId r ids))"

text \<open>
  \<open>typeof data === 'object'\<close> holds of objects and of arrays (\<open>null\<close> is excluded by the
  truthiness test before it); an array has no property \<open>tags\<close>, so \<open>d['tags']\<close> is
  \<open>undefined\<close> for it.
\<close>

fun typeofObject :: "json \<Rightarrow> bool" where
  "typeofObject JNull = True"
| "typeofObject (JArr xs) = True"
| "typeofObject (JObj d) = True"
| "typeofObject (JBool b) = False"
| "typeofObject (JNum x) = False"
| "typeofObject (JStr s) = False"

fun getTags :: "json \<Rightarrow> json option" where
  "getTags (JObj d) = map_of d (js ''tags'')"
| "getTags (JArr xs) = None"
| "getTags JNull = None"
| "getTags (JBool b) = None"
| "getTags (JNum x) = None"
| "getTags (JStr s) = None"

definition extractAllTagIds :: "json \<Rightarrow> jsstring list" where
  "extractAllTagIds data =
     (case add {} (extractTagId data) of
        (main, seen) \<Rightarrow>
          (let ids = pushIfId main [] in
           if truthy data \<and> typeofObject data then
             (case getTags data of
                Some (JArr ts) \<Rightarrow> addTags ts seen ids
              | _ \<Rightarrow> ids)
           else ids))"

section \<open>Read aggregator (lectura.ts, lines 29-38, 246-270, 352-359)\<close>

record TagCount =
  id_tag :: jsstring
  count :: nat
  lastSeen :: jsstring

record EventEntry =
  time :: jsstring
  data :: json

text \<open>
  The fields of the component that the message handler touches. \<open>tagCounts\<close> is a
  \<open>Map<string, TagCount>\<close>: its entries in insertion order, one per key. The counters are
  JavaScript numbers used as non-negative integers. \<open>maxEvents\<close> is a field that is
  initialised to 200 and never assigned. The component of maleta.ts has the same fields
  and repeats \<open>extractTagId\<close>, \<open>extractAllTagIds\<close>, \<open>processEvent\<close>, \<open>clearEvents\<close>,
  \<open>clearTags\<close>, \<open>connectRealtime\<close> and \<open>disconnectRealtime\<close> word for word (lines
  608-763).
\<close>

record Lectura =
  events :: "EventEntry list"
  eventsReceived :: nat
  tagCounts :: "(jsstring \<times> TagCount) list"
  totalReads :: nat

definition maxEvents :: nat where
  "maxEvents = 200"

definition initial :: Lectura where
  "initial = \<lparr>events = [], eventsReceived = 0, tagCounts = [], totalReads = 0\<rparr>"

text \<open>
  \<open>try { data = JSON.parse(raw); } catch { data = { raw }; }\<close>, with \<open>JSON.parse\<close> a
  parameter: \<open>None\<close> where it throws.
\<close>

definition decode :: "(jsstring \<Rightarrow> json option) \<Rightarrow> jsstring \<Rightarrow> json" where
  "decode parse raw = (case parse raw of Some v \<Rightarrow> v | None \<Rightarrow> JObj [(js ''raw'', JStr raw)])"

text \<open>
  The body of \<open>for (const tagId of tagIds)\<close>, and the loop. \<open>existing.count++\<close> and
  \<open>existing.lastSeen = now\<close> change the record stored under the key, in place;
  \<open>tagCounts.set\<close> is only called for a key that the map does not hold, and adds it
  last.
\<close>

definition recordTag :: "jsstring \<Rightarrow> jsstring \<Rightarrow> Lectura \<Rightarrow> Lectura" where
  "recordTag now tagId s =
     (let s1 = s\<lparr>totalReads := totalReads s + 1\<rparr> in
      case map_of (tagCounts s1) tagId of
        Some existing \<Rightarrow>
          s1\<lparr>tagCounts := AList.update tagId
                 (existing\<lparr>count := count existing + 1, lastSeen := now\<rparr>) (tagCounts s1)\<rparr>
      | None \<Rightarrow>
          s1\<lparr>tagCounts := tagCounts s1 @ [(tagId, \<lparr>id_tag = tagId, count = 1, lastSeen = now\<rparr>)]\<rparr>)"

fun recordTags :: "jsstring \<Rightarrow> jsstring list \<Rightarrow> Lectura \<Rightarrow> Lectura" where
  "recordTags now [] s = s"
| "recordTags now (tagId # rest) s = recordTags now rest (recordTag now tagId s)"

text \<open>
  \<open>processEvent(raw)\<close>; \<open>now\<close> is the string \<open>new Date().toLocaleTimeString('es-MX')\<close>
  read by the call.
\<close>

definition processEvent :: "(jsstring \<Rightarrow> json option) \<Rightarrow> jsstring \<Rightarrow> jsstring \<Rightarrow> Lectura \<Rightarrow> Lectura" where
  "processEvent parse now raw s =
     (let d = decode parse raw;
          s1 = s\<lparr>eventsReceived := eventsReceived s + 1\<rparr>;
          s2 = s1\<lparr>events := \<lparr>time = now, data = d\<rparr> # events s1\<rparr>;
          s3 = (if length (events s2) > maxEvents then s2\<lparr>events := butlast (events s2)\<rparr> else s2)
      in recordTags now (extractAllTagIds d) s3)"

definition clearEvents :: "Lectura \<Rightarrow> Lectura" where
  "clearEvents s = s\<lparr>events := []\<rparr>"

definition clearTags :: "Lectura \<Rightarrow> Lectura" where
  "clearTags s = s\<lparr>tagCounts := [], totalReads := 0\<rparr>"

text \<open>The calls that reach these fields, and a run of them.\<close>

datatype call = ProcessEvent jsstring jsstring | ClearEvents | ClearTags

fun step :: "(jsstring \<Rightarrow> json option) \<Rightarrow> Lectura \<Rightarrow> call \<Rightarrow> Lectura" where
  "step parse s (ProcessEvent now raw) = processEvent parse now raw s"
| "step parse s ClearEvents = clearEvents s"
| "step parse s ClearTags = clearTags s"

definition run :: "(jsstring \<Rightarrow> json option) \<Rightarrow> call list \<Rightarrow> Lectura \<Rightarrow> Lectura" where
  "run parse calls s = foldl (step parse) s calls"

section \<open>Event ingestion channel (lectura.ts, lines 297-350)\<close>

text \<open>
  \<open>this.eventSource\<close> and \<open>this.ws\<close> are \<open>null\<close> (\<open>None\<close>) or a transport, of which the
  handlers read only \<open>readyState\<close>.
\<close>

datatype readyState = CONNECTING | OPEN | CLOSING | CLOSED

record Channel =
  eventSource :: "readyState option"
  ws :: "readyState option"
  sseConnected :: bool

definition disconnectRealtime :: "Channel \<Rightarrow> Channel" where
  "disconnectRealtime c = c\<lparr>eventSource := None, ws := None, sseConnected := False\<rparr>"

text \<open>
  \<open>connectRealtime\<close>: \<open>hasBase\<close> says that the base URL is non-empty, \<open>sseOk\<close> and
  \<open>wsOk\<close> that the constructor of the transport returns (it throws otherwise). A transport
  starts out connecting.
\<close>

definition connectRealtime :: "bool \<Rightarrow> bool \<Rightarrow> bool \<Rightarrow> Channel \<Rightarrow> Channel" where
  "connectRealtime hasBase sseOk wsOk c =
     (let c0 = disconnectRealtime c in
      if \<not> hasBase then c0
      else
        let c1 = (if sseOk then c0\<lparr>eventSource := Some CONNECTING\<rparr>
                  else c0\<lparr>sseConnected := False\<rparr>);
            c2 = (if wsOk then c1\<lparr>ws := Some CONNECTING\<rparr> else c1)
        in c2)"

text \<open>The handlers that \<open>connectRealtime\<close> installs, as written.\<close>

definition eventSource_onopen :: "Channel \<Rightarrow> Channel" where
  "eventSource_onopen c = c\<lparr>sseConnected := True\<rparr>"

definition eventSource_onerror :: "Channel \<Rightarrow> Channel" where
  "eventSource_onerror c = c\<lparr>sseConnected := False\<rparr>"

definition ws_onopen :: "Channel \<Rightarrow> Channel" where
  "ws_onopen c = c\<lparr>sseConnected := True\<rparr>"

definition ws_onclose :: "Channel \<Rightarrow> Channel" where
  "ws_onclose c =
     (if eventSource c = None \<or> eventSource c \<noteq> Some OPEN then c\<lparr>sseConnected := False\<rparr>
      else c)"

definition ws_onerror :: "Channel \<Rightarrow> Channel" where
  "ws_onerror c =
     (if eventSource c = None \<or> eventSource c \<noteq> Some OPEN then c\<lparr>sseConnected := False\<rparr>
      else c)"

text \<open>
  A step of the channel is a transport callback: the browser has moved the transport to its
  new \<open>readyState\<close> (open on \<open>open\<close>; connecting again or closed on an \<open>EventSource\<close>
  error, as \<open>SseError True\<close> and \<open>SseError False\<close>; closed on a \<open>WebSocket\<close> close or
  error) and then runs the handler.
\<close>

datatype callback = SseOpen | SseError bool | WsOpen | WsClose | WsError

fun fire :: "Channel \<Rightarrow> callback \<Rightarrow> Channel" where
  "fire c SseOpen = eventSource_onopen (c\<lparr>eventSource := Some OPEN\<rparr>)"
| "fire c (SseError again) =
     eventSource_onerror (c\<lparr>eventSource := Some (if again then CONNECTING else CLOSED)\<rparr>)"
| "fire c WsOpen = ws_onopen (c\<lparr>ws := Some OPEN\<rparr>)"
| "fire c WsClose = ws_onclose (c\<lparr>ws := Some CLOSED\<rparr>)"
| "fire c WsError = ws_onerror (c\<lparr>ws := Some CLOSED\<rparr>)"

definition closedChannel :: Channel where
  "closedChannel = \<lparr>eventSource = None, ws = None, sseConnected = False\<rparr>"

section \<open>Case reconciliation (maleta.ts, lines 12-22, 103-220)\<close>

record MaletaItem =
  id_maleta :: jsstring
  masterRfid :: jsstring
  productRfids :: "jsstring list"
  createdAt :: jsstring
  expiredProductRfids :: "jsstring list option"

datatype SemaphoreStatus = Red | Blue | Yellow | Green

text \<open>
  The getters below read \<open>this.maletas\<close> and \<open>this.effectiveReadTags\<close>; both are
  arguments here (\<open>maletas\<close>, \<open>read\<close>). On a string \<open>(x || '')\<close> is \<open>x\<close>.
\<close>

definition getExpectedTagUnion :: "MaletaItem list \<Rightarrow> jsstring set" where
  "getExpectedTagUnion maletas =
     (\<Union>m \<in> set maletas. insert (trim (masterRfid m)) (set (map trim (productRfids m)))) - {[]}"

definition hasUnknownTagRead :: "MaletaItem list \<Rightarrow> jsstring list \<Rightarrow> bool" where
  "hasUnknownTagRead maletas read =
     (if length maletas = 0 then False
      else list_ex (\<lambda>r. length r > 0 \<and> r \<notin> getExpectedTagUnion maletas) read)"

definition getMaletaStatus :: "jsstring list \<Rightarrow> MaletaItem \<Rightarrow> SemaphoreStatus" where
  "getMaletaStatus read m =
     (let expired = (case expiredProductRfids m of Some e \<Rightarrow> e | None \<Rightarrow> []) in
      if length expired > 0 then Red
      else
        let expected = filter (\<lambda>s. length s > 0) (map trim (masterRfid m # productRfids m));
            missing = filter (\<lambda>e. e \<notin> set read) expected
        in if length missing > 0 then Blue else Green)"

definition generalSemaphoreStatus :: "MaletaItem list \<Rightarrow> jsstring list \<Rightarrow> SemaphoreStatus" where
  "generalSemaphoreStatus maletas read =
     (if length maletas = 0 then Green
      else
        let statuses = map (getMaletaStatus read) maletas in
        if list_ex (\<lambda>s. s = Red) statuses then Red
        else if hasUnknownTagRead maletas read then Yellow
        else if list_ex (\<lambda>s. s = Yellow) statuses then Yellow
        else if list_ex (\<lambda>s. s = Blue) statuses then Blue
        else Green)"

section \<open>Text format of the cases (maleta.ts, lines 349-423)\<close>

definition TXT_MAESTRO_PREFIX :: jsstring where
  "TXT_MAESTRO_PREFIX = js ''MAESTRO ''"

definition LF :: jschar where
  "LF = 0xA"

definition CR :: jschar where
  "CR = 0xD"

text \<open>\<open>lines.join('\n')\<close>\<close>

fun joinLines :: "jsstring list \<Rightarrow> jsstring" where
  "joinLines [] = []"
| "joinLines [l] = l"
| "joinLines (l # l' # ls) = l @ LF # joinLines (l' # ls)"

text \<open>The two comment lines and the empty line that open every export.\<close>

definition exportHeader :: "jsstring list" where
  "exportHeader =
     [js ''# Maletas - qu'' @ [0xE9] @ js '' hay que leer'',
      js ''# MAESTRO = RFID de la maleta. L'' @ [0xED] @ js ''neas debajo = productos hasta el pr''
        @ [0xF3] @ js ''ximo MAESTRO.'',
      []]"

text \<open>
  \<open>exportMaletasToTxt\<close> up to the text it hands to the \<open>Blob\<close>: the lines pushed for
  one case, all the lines, and their join.
\<close>

definition exportCase :: "MaletaItem \<Rightarrow> jsstring list" where
  "exportCase m = (TXT_MAESTRO_PREFIX @ masterRfid m) # map trim (productRfids m) @ [[]]"

definition exportLines :: "MaletaItem list \<Rightarrow> jsstring list" where
  "exportLines maletas = exportHeader @ concat (map exportCase maletas)"

definition exportMaletasToTxt :: "MaletaItem list \<Rightarrow> jsstring" where
  "exportMaletasToTxt maletas = joinLines (exportLines maletas)"

text \<open>
  \<open>text.split(/\r?\n/)\<close>: a line ends at a line feed, or at a carriage return that a line
  feed follows.
\<close>

fun splitLines :: "jsstring \<Rightarrow> jsstring list" where
  "splitLines [] = [[]]"
| "splitLines [c] = (if c = LF then [[], []] else [[c]])"
| "splitLines (c # c' # cs) =
     (if c = CR \<and> c' = LF then [] # splitLines cs
      else if c = LF then [] # splitLines (c' # cs)
      else (case splitLines (c' # cs) of
              l # ls \<Rightarrow> (c # l) # ls
            | [] \<Rightarrow> [[c]]))"

text \<open>The decimal digits of a number, as a template literal prints it.\<close>

fun decimal :: "nat \<Rightarrow> jsstring" where
  "decimal n = (if n < 10 then [of_nat (48 + n)] else decimal (n div 10) @ [of_nat (48 + n mod 10)])"

declare decimal.simps [simp del]

text \<open>
  The loop of \<open>parseMaletasTxt\<close> over the trimmed lines. \<open>result\<close> is the array built so
  far; \<open>current\<close> is \<open>null\<close> or the position in \<open>result\<close> of the item that the variable
  \<open>current\<close> refers to, whose \<open>productRfids\<close> the loop extends in place. \<open>dateNow k\<close> and
  \<open>isoNow k\<close> are what \<open>Date.now()\<close> and \<open>new Date().toISOString()\<close> return when the
  item at position \<open>k\<close> is created.
\<close>

fun parseLoop :: "(nat \<Rightarrow> nat) \<Rightarrow> (nat \<Rightarrow> jsstring) \<Rightarrow> jsstring list \<Rightarrow>
    MaletaItem list \<Rightarrow> nat option \<Rightarrow> MaletaItem list" where
  "parseLoop dateNow isoNow [] result current = result"
| "parseLoop dateNow isoNow (line # lines) result current =
     (if line = [] \<or> startsWith line (js ''#'') then parseLoop dateNow isoNow lines result current
      else if startsWith line TXT_MAESTRO_PREFIX then
        (let masterRfid = trim (drop (length TXT_MAESTRO_PREFIX) line) in
         if masterRfid \<noteq> [] then
           parseLoop dateNow isoNow lines
             (result @ [\<lparr>id_maleta = js ''maleta_'' @ decimal (dateNow (length result)) @ js ''_''
                                        @ decimal (length result),
                         masterRfid = masterRfid,
                         productRfids = [],
                         createdAt = isoNow (length result),
                         expiredProductRfids = None\<rparr>])
             (Some (length result))
         else parseLoop dateNow isoNow lines result current)
      else
        (case current of
           Some i \<Rightarrow>
             if line \<noteq> [] then
               parseLoop dateNow isoNow lines
                 (result[i := (result ! i)\<lparr>productRfids := productRfids (result ! i) @ [line]\<rparr>])
                 current
             else parseLoop dateNow isoNow lines result current
         | None \<Rightarrow> parseLoop dateNow isoNow lines result current))"

definition parseMaletasTxt :: "(nat \<Rightarrow> nat) \<Rightarrow> (nat \<Rightarrow> jsstring) \<Rightarrow> jsstring \<Rightarrow> MaletaItem list" where
  "parseMaletasTxt dateNow isoNow text =
     parseLoop dateNow isoNow (map trim (splitLines text)) [] None"

text \<open>
  \<open>importMaletasFromFile\<close>: the \<open>onload\<close> handler, given the text read from the file;
  its result is the new value of \<open>this.maletas\<close>.
\<close>

definition importMaletasFromFile ::
    "(nat \<Rightarrow> nat) \<Rightarrow> (nat \<Rightarrow> jsstring) \<Rightarrow> jsstring \<Rightarrow> MaletaItem list \<Rightarrow> MaletaItem list" where
  "importMaletasFromFile dateNow isoNow text maletas =
     (let loaded = parseMaletasTxt dateNow isoNow text in
      if length loaded > 0 then loaded else maletas)"

section \<open>Notions used to state the properties\<close>

text \<open>
  The \<open>tags\<close> array of a payload (empty unless the payload is an object whose \<open>tags\<close>
  field is an array); the ids found in discovery order, the payload first and then each
  element of the array, those shorter than four code units left out; and the first
  occurrences in a sequence, given the ids returned before.
\<close>

definition tagsArray :: "json \<Rightarrow> json list" where
  "tagsArray payload =
     (case payload of
        JObj d \<Rightarrow> (case map_of d (js ''tags'') of Some (JArr ts) \<Rightarrow> ts | _ \<Rightarrow> [])
      | _ \<Rightarrow> [])"

definition candidates :: "json \<Rightarrow> jsstring list" where
  "candidates payload =
     filter (\<lambda>i. length i \<ge> 4) (List.map_filter extractTagId (payload # tagsArray payload))"

fun keepNew :: "jsstring set \<Rightarrow> jsstring list \<Rightarrow> jsstring list" where
  "keepNew returned [] = []"
| "keepNew returned (i # is) =
     (if i \<in> returned then keepNew returned is else i # keepNew (insert i returned) is)"

text \<open>
  A feed is a message with the time string read when it arrives; \<open>entry\<close> is the log
  entry it leaves and \<open>feed\<close> the call it makes. \<open>countSum\<close> adds up the \<open>count\<close> fields
  of the records in the tag table.
\<close>

definition entry :: "(jsstring \<Rightarrow> json option) \<Rightarrow> jsstring \<times> jsstring \<Rightarrow> EventEntry" where
  "entry parse f = \<lparr>time = fst f, data = decode parse (snd f)\<rparr>"

definition feed :: "jsstring \<times> jsstring \<Rightarrow> call" where
  "feed f = ProcessEvent (fst f) (snd f)"

definition countSum :: "Lectura \<Rightarrow> nat" where
  "countSum s = sum_list (map (\<lambda>kv. count (snd kv)) (tagCounts s))"

text \<open>
  The tags a case flags as expired, and the tags it expects: its master and product tags,
  trimmed, the empty string left out.
\<close>

definition expiredTags :: "MaletaItem \<Rightarrow> jsstring set" where
  "expiredTags m = (case expiredProductRfids m of Some e \<Rightarrow> set e | None \<Rightarrow> {})"

definition expectedTags :: "MaletaItem \<Rightarrow> jsstring set" where
  "expectedTags m = trim ` insert (masterRfid m) (set (productRfids m)) - {[]}"

text \<open>
  For the text format. \<open>trimEnd\<close> removes trailing white space; \<open>chomp\<close> removes one
  trailing carriage return; a \<open>productLine\<close> is a trimmed line that the parser takes as a
  product tag. A case is \<open>exportable\<close> when its master tag and product tags contain no
  line feed and are not empty after trimming, and no trimmed product tag starts with \<open>#\<close>
  or with \<open>MAESTRO \<close>; it is a \<open>trimmedCase\<close> when trimming changes none of its tags.
  \<open>contents\<close> are the master tag and the product tags of a case. \<open>reimported\<close> is the
  collection with trimmed tags, the ids and timestamps that the parser gives, counting from
  \<open>k\<close>, and no expired flags. \<open>sampleDateNow\<close> and \<open>sampleIsoNow\<close> are a clock for the
  examples.
\<close>

definition trimEnd :: "jsstring \<Rightarrow> jsstring" where
  "trimEnd s = rev (dropWhile isWhiteSpace (rev s))"

definition chomp :: "jsstring \<Rightarrow> jsstring" where
  "chomp l = (if l \<noteq> [] \<and> last l = CR then butlast l else l)"

definition productLine :: "jsstring \<Rightarrow> bool" where
  "productLine q = (q \<noteq> [] \<and> \<not> startsWith q (js ''#'') \<and> \<not> startsWith q TXT_MAESTRO_PREFIX)"

definition exportable :: "MaletaItem \<Rightarrow> bool" where
  "exportable m =
     (LF \<notin> set (masterRfid m) \<and> trim (masterRfid m) \<noteq> []
      \<and> list_all (\<lambda>p. LF \<notin> set p \<and> trim p \<noteq> [] \<and> \<not> startsWith (trim p) (js ''#'')
                       \<and> \<not> startsWith (trim p) TXT_MAESTRO_PREFIX) (productRfids m))"

definition trimmedCase :: "MaletaItem \<Rightarrow> bool" where
  "trimmedCase m = (trim (masterRfid m) = masterRfid m \<and> list_all (\<lambda>p. trim p = p) (productRfids m))"

definition contents :: "MaletaItem \<Rightarrow> jsstring \<times> jsstring list" where
  "contents m = (masterRfid m, productRfids m)"

fun reimported :: "(nat \<Rightarrow> nat) \<Rightarrow> (nat \<Rightarrow> jsstring) \<Rightarrow> nat \<Rightarrow> MaletaItem list \<Rightarrow> MaletaItem list" where
  "reimported dateNow isoNow k [] = []"
| "reimported dateNow isoNow k (m # ms) =
     \<lparr>id_maleta = js ''maleta_'' @ decimal (dateNow k) @ js ''_'' @ decimal k,
      masterRfid = trim (masterRfid m),
      productRfids = map trim (productRfids m),
      createdAt = isoNow k,
      expiredProductRfids = None\<rparr> # reimported dateNow isoNow (Suc k) ms"

definition sampleDateNow :: "nat \<Rightarrow> nat" where
  "sampleDateNow k = 1000 + k"

definition sampleIsoNow :: "nat \<Rightarrow> jsstring" where
  "sampleIsoNow k = js ''2026-01-01T00:00:00.000Z''"

section \<open>The extractor\<close>

lemma addTags_keepNew:
  "addTags ts seen ids =
   ids @ keepNew seen (filter (\<lambda>i. length i \<ge> 4) (List.map_filter extractTagId ts))"
proof (induction ts arbitrary: seen ids)
  case Nil
  show ?case by simp
next
  case (Cons t ts)
  show ?case
  proof (cases "extractTagId t")
    case None
    then show ?thesis using Cons.IH by (simp add: add_def pushIfId_def)
  next
    case (Some i)
    then show ?thesis using Cons.IH by (auto simp add: add_def pushIfId_def)
  qed
qed

lemma keepNew_distinct: "distinct (keepNew seen xs) \<and> set (keepNew seen xs) = set xs - seen"
  by (induction xs arbitrary: seen) auto

lemma keepNew_length: "length (keepNew seen xs) \<le> length xs"
  by (induction xs arbitrary: seen) (auto simp: le_SucI)

lemma map_filter_length: "length (List.map_filter f xs) \<le> length xs"
  by (simp add: List.map_filter_def)

lemma extractAllTagIds_keepNew: "extractAllTagIds payload = keepNew {} (candidates payload)"
proof (cases payload)
  case (JObj d)
  show ?thesis
  proof (cases "extractTagId payload")
    case None
    then show ?thesis using JObj
      by (simp add: extractAllTagIds_def candidates_def tagsArray_def add_def pushIfId_def
          addTags_keepNew split: option.splits json.splits)
  next
    case (Some i)
    then show ?thesis using JObj
      by (auto simp add: extractAllTagIds_def candidates_def tagsArray_def add_def pushIfId_def
          addTags_keepNew split: option.splits json.splits)
  qed
qed (auto simp add: extractAllTagIds_def candidates_def tagsArray_def add_def pushIfId_def
       split: option.splits)

text \<open>
  C6. For every decoded payload \<open>extractAllTagIds\<close> returns, without duplicates and in
  discovery order, the ids of at least four code units that \<open>extractTagId\<close> finds in the
  payload and then in each element of its \<open>tags\<close> array (when the payload is an object
  with such an array), each id at its first occurrence only; there are at most one more of
  them than elements of the array. On
  \<open>{epc: "AAAA1111", tags: [{id: "AAAA1111"}, {id: "BBBB2222"}]}\<close> the result is
  \<open>["AAAA1111", "BBBB2222"]\<close>.
\<close>

theorem extractAllTagIds_discovery_order:
  "extractAllTagIds payload = keepNew {} (candidates payload)
   \<and> distinct (extractAllTagIds payload)
   \<and> set (extractAllTagIds payload) = set (candidates payload)
   \<and> length (extractAllTagIds payload) \<le> 1 + length (tagsArray payload)
   \<and> extractAllTagIds
         (JObj [(js ''epc'', JStr (js ''AAAA1111'')),
                (js ''tags'', JArr [JObj [(js ''id'', JStr (js ''AAAA1111''))],
                                    JObj [(js ''id'', JStr (js ''BBBB2222''))]])])
       = [js ''AAAA1111'', js ''BBBB2222'']"
proof (intro conjI)
  show "extractAllTagIds payload = keepNew {} (candidates payload)"
    by (rule extractAllTagIds_keepNew)
  show "distinct (extractAllTagIds payload)"
    by (simp add: extractAllTagIds_keepNew keepNew_distinct)
  show "set (extractAllTagIds payload) = set (candidates payload)"
    by (simp add: extractAllTagIds_keepNew keepNew_distinct)
  have "length (candidates payload) \<le> length (payload # tagsArray payload)"
    unfolding candidates_def
    by (rule order_trans [OF length_filter_le map_filter_length])
  with keepNew_length [of "{}" "candidates payload"]
  show "length (extractAllTagIds payload) \<le> 1 + length (tagsArray payload)"
    by (simp add: extractAllTagIds_keepNew)
  show "extractAllTagIds
         (JObj [(js ''epc'', JStr (js ''AAAA1111'')),
                (js ''tags'', JArr [JObj [(js ''id'', JStr (js ''AAAA1111''))],
                                    JObj [(js ''id'', JStr (js ''BBBB2222''))]])])
       = [js ''AAAA1111'', js ''BBBB2222'']"
    by code_simp
qed

text \<open>
  C7. When the payload is an object whose key \<open>epc\<close> holds a string that is not empty
  after trimming, \<open>extractTagId\<close> returns that string trimmed, whatever else the object
  holds.
\<close>

theorem extractTagId_epc_first:
  assumes "map_of d (js ''epc'') = Some (JStr v)" and "trim v \<noteq> []"
  shows "extractTagId (JObj d) = Some (trim v)"
  using assms by (simp add: preferidos_def)

theorem extractTagId_epc_first_witness:
  "map_of [(js ''tag'', JStr (js ''CCCC3333'')),
           (js ''tags'', JArr [JObj [(js ''id'', JStr (js ''DDDD4444''))]]),
           (js ''id'', JStr (js ''EEEE5555'')),
           (js ''epc'', JStr (js '' AAAA1111 ''))] (js ''epc'') = Some (JStr (js '' AAAA1111 ''))
   \<and> trim (js '' AAAA1111 '') = js ''AAAA1111''
   \<and> extractTagId (JObj [(js ''tag'', JStr (js ''CCCC3333'')),
           (js ''tags'', JArr [JObj [(js ''id'', JStr (js ''DDDD4444''))]]),
           (js ''id'', JStr (js ''EEEE5555'')),
           (js ''epc'', JStr (js '' AAAA1111 ''))]) = Some (js ''AAAA1111'')"
proof -
  have t: "trim (js '' AAAA1111 '') = js ''AAAA1111''"
    by (simp add: trim_def js_def isWhiteSpace_def)
  have l: "map_of [(js ''tag'', JStr (js ''CCCC3333'')),
           (js ''tags'', JArr [JObj [(js ''id'', JStr (js ''DDDD4444''))]]),
           (js ''id'', JStr (js ''EEEE5555'')),
           (js ''epc'', JStr (js '' AAAA1111 ''))] (js ''epc'') = Some (JStr (js '' AAAA1111 ''))"
    by (simp add: js_def)
  have n: "trim (js '' AAAA1111 '') \<noteq> []"
    unfolding t by (simp add: js_def)
  from extractTagId_epc_first [OF l n] t l show ?thesis by simp
qed

section \<open>The aggregator\<close>

lemma recordTag_events: "events (recordTag now i s) = events s"
  by (simp add: recordTag_def Let_def split: option.splits)

lemma recordTags_events: "events (recordTags now ids s) = events s"
  by (induction ids arbitrary: s) (simp_all add: recordTag_events)

lemma processEvent_events:
  "events (processEvent parse now raw s) =
     (if length (events s) \<ge> maxEvents
      then butlast (\<lparr>time = now, data = decode parse raw\<rparr> # events s)
      else \<lparr>time = now, data = decode parse raw\<rparr> # events s)"
  by (simp add: processEvent_def Let_def recordTags_events)

lemma processEvent_events_take:
  "length (events s) \<le> maxEvents \<Longrightarrow>
   events (processEvent parse now raw s) = take maxEvents (\<lparr>time = now, data = decode parse raw\<rparr> # events s)"
  by (cases "length (events s) = maxEvents")
     (auto simp add: processEvent_events butlast_conv_take maxEvents_def)

lemma run_Cons: "run parse (c # cs) s = run parse cs (step parse s c)"
  by (simp add: run_def)

lemma run_Nil: "run parse [] s = s"
  by (simp add: run_def)

lemma run_snoc: "run parse (cs @ [c]) s = step parse (run parse cs s) c"
  by (simp add: run_def)

lemma run_events_le: "length (events s) \<le> maxEvents \<Longrightarrow> length (events (run parse calls s)) \<le> maxEvents"
proof (induction calls rule: rev_induct)
  case Nil
  then show ?case by (simp add: run_Nil)
next
  case (snoc c calls)
  then have le: "length (events (run parse calls s)) \<le> maxEvents" by simp
  show ?case
  proof (cases c)
    case (ProcessEvent now raw)
    with le show ?thesis by (simp add: run_snoc processEvent_events_take)
  next
    case ClearEvents
    then show ?thesis by (simp add: run_snoc clearEvents_def)
  next
    case ClearTags
    with le show ?thesis by (simp add: run_snoc clearTags_def)
  qed
qed

lemma run_feeds_events:
  "events (run parse (map feed feeds) initial) = take maxEvents (rev (map (entry parse) feeds))"
proof (induction feeds rule: rev_induct)
  case Nil
  show ?case by (simp add: run_Nil initial_def)
next
  case (snoc f feeds)
  have le: "length (events (run parse (map feed feeds) initial)) \<le> maxEvents"
    by (simp add: snoc.IH)
  have "events (run parse (map feed (feeds @ [f])) initial)
          = events (processEvent parse (fst f) (snd f) (run parse (map feed feeds) initial))"
    by (simp add: run_snoc feed_def)
  also have "\<dots> = take maxEvents (entry parse f # events (run parse (map feed feeds) initial))"
    by (simp add: processEvent_events_take [OF le] entry_def)
  also have "\<dots> = take maxEvents (entry parse f # rev (map (entry parse) feeds))"
    by (simp add: snoc.IH take_Cons')
  finally show ?case by simp
qed

lemma recordTag_totalReads: "totalReads (recordTag now i s) = totalReads s + 1"
  by (simp add: recordTag_def Let_def split: option.splits)

lemma recordTags_totalReads: "totalReads (recordTags now ids s) = totalReads s + length ids"
  by (induction ids arbitrary: s) (simp_all add: recordTag_totalReads)

lemma update_sum_Some:
  "map_of al k = Some v \<Longrightarrow>
   sum_list (map f (AList.update k v' al)) + f (k, v) = sum_list (map f al) + (f (k, v') :: nat)"
  by (induction al) auto

lemma recordTag_countSum: "countSum (recordTag now i s) = countSum s + 1"
proof (cases "map_of (tagCounts s) i")
  case None
  then show ?thesis
    by (simp add: recordTag_def countSum_def)
next
  case (Some r)
  from update_sum_Some [OF Some, of "\<lambda>kv. count (snd kv)" "r\<lparr>count := count r + 1, lastSeen := now\<rparr>"]
  show ?thesis using Some
    by (simp add: recordTag_def countSum_def)
qed

lemma recordTags_countSum: "countSum (recordTags now ids s) = countSum s + length ids"
  by (induction ids arbitrary: s) (simp_all add: recordTag_countSum)

lemma countSum_frame [simp]:
  "countSum (s\<lparr>events := es\<rparr>) = countSum s"
  "countSum (s\<lparr>eventsReceived := n\<rparr>) = countSum s"
  by (simp_all add: countSum_def)

lemma processEvent_counters:
  "totalReads (processEvent parse now raw s) = totalReads s + length (extractAllTagIds (decode parse raw))"
  "countSum (processEvent parse now raw s) = countSum s + length (extractAllTagIds (decode parse raw))"
  by (simp_all add: processEvent_def Let_def recordTags_totalReads recordTags_countSum)

lemma step_counters: "totalReads s = countSum s \<Longrightarrow> totalReads (step parse s c) = countSum (step parse s c)"
  by (cases c) (simp_all add: processEvent_counters clearEvents_def clearTags_def, simp add: countSum_def)

lemma run_counters: "totalReads s = countSum s \<Longrightarrow> totalReads (run parse calls s) = countSum (run parse calls s)"
  by (induction calls rule: rev_induct) (simp_all add: run_Nil run_snoc step_counters)


lemma recordTag_lookup:
  "map_of (tagCounts (recordTag now t s)) t =
     Some (case map_of (tagCounts s) t of
             None \<Rightarrow> \<lparr>id_tag = t, count = 1, lastSeen = now\<rparr>
           | Some r \<Rightarrow> r\<lparr>count := count r + 1, lastSeen := now\<rparr>)"
  by (simp add: recordTag_def update_conv' map_add_def split: option.splits)

lemma processEvent_single:
  assumes "extractAllTagIds (decode parse raw) = [t]"
  shows "tagCounts (processEvent parse now raw s) = tagCounts (recordTag now t s)"
    and "totalReads (processEvent parse now raw s) = totalReads s + 1"
  using assms by (simp_all add: processEvent_def Let_def recordTag_def split: option.splits)

lemma feeds_known:
  assumes "\<forall>f \<in> set feeds. extractAllTagIds (decode parse (snd f)) = [t]"
    and "map_of (tagCounts s) t = Some r"
  shows "map_of (tagCounts (run parse (map feed feeds) s)) t =
           Some (r\<lparr>count := count r + length feeds,
                   lastSeen := (if feeds = [] then lastSeen r else fst (last feeds))\<rparr>)
         \<and> totalReads (run parse (map feed feeds) s) = totalReads s + length feeds"
  using assms(1)
proof (induction feeds rule: rev_induct)
  case Nil
  show ?case using assms(2) by (simp add: run_Nil)
next
  case (snoc f feeds)
  then have one: "extractAllTagIds (decode parse (snd f)) = [t]" by simp
  from snoc have IH: "map_of (tagCounts (run parse (map feed feeds) s)) t =
           Some (r\<lparr>count := count r + length feeds,
                   lastSeen := (if feeds = [] then lastSeen r else fst (last feeds))\<rparr>)"
    and IH2: "totalReads (run parse (map feed feeds) s) = totalReads s + length feeds"
    by simp_all
  show ?case
    by (simp add: run_snoc feed_def [of f] processEvent_single [OF one] recordTag_lookup IH IH2)
qed

lemma feeds_new:
  assumes "feeds \<noteq> []"
    and "\<forall>f \<in> set feeds. extractAllTagIds (decode parse (snd f)) = [t]"
    and "map_of (tagCounts s) t = None"
  shows "map_of (tagCounts (run parse (map feed feeds) s)) t =
           Some \<lparr>id_tag = t, count = length feeds, lastSeen = fst (last feeds)\<rparr>
         \<and> totalReads (run parse (map feed feeds) s) = totalReads s + length feeds"
proof -
  from assms(1) obtain f fs where feeds: "feeds = f # fs" by (cases feeds) auto
  with assms(2) have one: "extractAllTagIds (decode parse (snd f)) = [t]"
    and rest: "\<forall>f \<in> set fs. extractAllTagIds (decode parse (snd f)) = [t]" by simp_all
  let ?s1 = "processEvent parse (fst f) (snd f) s"
  have first: "map_of (tagCounts ?s1) t = Some \<lparr>id_tag = t, count = 1, lastSeen = fst f\<rparr>"
    by (simp add: processEvent_single [OF one] recordTag_lookup assms(3))
  have tr: "totalReads ?s1 = totalReads s + 1"
    by (rule processEvent_single [OF one])
  from feeds_known [OF rest first] tr show ?thesis
    by (simp add: feeds run_Cons feed_def [of f])
qed

text \<open>
  C8. Every call of \<open>processEvent\<close> puts one entry at the head of the event log and drops
  the last entry when the log then holds more than 200, so a log of at most 200 entries
  stays so, and every log reached from the initial state has at most 200 entries, newest
  first. After 201 feeds into the initial state the log holds the entries of the last 200,
  newest first: the entry of the first feed is gone, and is not in the log when the
  entries are distinct.
\<close>

theorem event_log_cap:
  "events (processEvent parse now raw s) =
     (if length (events s) \<ge> maxEvents
      then butlast (\<lparr>time = now, data = decode parse raw\<rparr> # events s)
      else \<lparr>time = now, data = decode parse raw\<rparr> # events s)
   \<and> (length (events s) \<le> maxEvents \<longrightarrow>
        length (events (processEvent parse now raw s)) \<le> maxEvents)
   \<and> length (events (run parse calls initial)) \<le> maxEvents
   \<and> events (run parse (map feed feeds) initial) = take maxEvents (rev (map (entry parse) feeds))
   \<and> (length feeds = 201 \<and> distinct (map (entry parse) feeds) \<longrightarrow>
        events (run parse (map feed feeds) initial) = rev (map (entry parse) (tl feeds))
        \<and> length (events (run parse (map feed feeds) initial)) = 200
        \<and> entry parse (hd feeds) \<notin> set (events (run parse (map feed feeds) initial)))
   \<and> maxEvents = 200"
proof (intro conjI impI)
  show "events (processEvent parse now raw s) =
     (if length (events s) \<ge> maxEvents
      then butlast (\<lparr>time = now, data = decode parse raw\<rparr> # events s)
      else \<lparr>time = now, data = decode parse raw\<rparr> # events s)"
    by (rule processEvent_events)
  show "length (events (processEvent parse now raw s)) \<le> maxEvents"
    if "length (events s) \<le> maxEvents"
    using that by (simp add: processEvent_events_take)
  show "length (events (run parse calls initial)) \<le> maxEvents"
    by (rule run_events_le) (simp add: initial_def)
  show "events (run parse (map feed feeds) initial) = take maxEvents (rev (map (entry parse) feeds))"
    by (rule run_feeds_events)
  show "maxEvents = 200"
    by (rule maxEvents_def)
next
  assume h: "length feeds = 201 \<and> distinct (map (entry parse) feeds)"
  then obtain f fs where feeds: "feeds = f # fs" and len: "length fs = 200"
    by (cases feeds) auto
  have "events (run parse (map feed feeds) initial) = take maxEvents (rev (map (entry parse) feeds))"
    by (rule run_feeds_events)
  also have "\<dots> = rev (map (entry parse) fs)"
    by (simp add: feeds len maxEvents_def)
  finally show eq: "events (run parse (map feed feeds) initial) = rev (map (entry parse) (tl feeds))"
    by (simp add: feeds)
  show "length (events (run parse (map feed feeds) initial)) = 200"
    unfolding eq by (simp add: feeds len)
  from h show "entry parse (hd feeds) \<notin> set (events (run parse (map feed feeds) initial))"
    unfolding eq by (simp add: feeds)
qed

theorem event_log_cap_witness:
  "length (events initial) \<le> maxEvents
   \<and> length (events (processEvent (\<lambda>r. None) (js ''10:00:00'') (js ''x'') initial)) \<le> maxEvents
   \<and> length (map (\<lambda>k. (js ''10:00:00'', replicate (Suc k) (0x41 :: jschar))) [0..<201]) = 201
   \<and> distinct (map (entry (\<lambda>r. None)) (map (\<lambda>k. (js ''10:00:00'', replicate (Suc k) (0x41 :: jschar))) [0..<201]))
   \<and> length (events (run (\<lambda>r. None)
         (map feed (map (\<lambda>k. (js ''10:00:00'', replicate (Suc k) (0x41 :: jschar))) [0..<201])) initial)) = 200
   \<and> entry (\<lambda>r. None) (js ''10:00:00'', [0x41])
        \<notin> set (events (run (\<lambda>r. None)
         (map feed (map (\<lambda>k. (js ''10:00:00'', replicate (Suc k) (0x41 :: jschar))) [0..<201])) initial))"
proof -
  let ?feeds = "map (\<lambda>k. (js ''10:00:00'', replicate (Suc k) (0x41 :: jschar))) [0..<201]"
  have i: "length (events initial) \<le> maxEvents"
    by (simp add: initial_def)
  have l: "length ?feeds = 201"
    by simp
  have d: "distinct (map (entry (\<lambda>r. None)) ?feeds)"
    by (simp add: distinct_map inj_on_def entry_def decode_def)
  have hd: "hd ?feeds = (js ''10:00:00'', [0x41])"
    by (simp add: upt_rec hd_map)
  note t = event_log_cap [of "\<lambda>r. None" "js ''10:00:00''" "js ''x''" initial "[]" ?feeds]
  from t i have s: "length (events (processEvent (\<lambda>r. None) (js ''10:00:00'') (js ''x'') initial)) \<le> maxEvents"
    by blast
  from t l d have "length (events (run (\<lambda>r. None) (map feed ?feeds) initial)) = 200
    \<and> entry (\<lambda>r. None) (hd ?feeds) \<notin> set (events (run (\<lambda>r. None) (map feed ?feeds) initial))"
    by blast
  then have r: "length (events (run (\<lambda>r. None) (map feed ?feeds) initial)) = 200
    \<and> entry (\<lambda>r. None) (js ''10:00:00'', [0x41]) \<notin> set (events (run (\<lambda>r. None) (map feed ?feeds) initial))"
    unfolding hd .
  from i s l d r show ?thesis by blast
qed


text \<open>
  C9. Recording an id creates its record with count 1 when the table has none and
  otherwise adds one to its count, in both cases with \<open>lastSeen\<close> the time of the call,
  and adds one to \<open>totalReads\<close>. So N \<open>\<ge>\<close> 1 feeds whose extracted ids are exactly \<open>[t]\<close>,
  into a state with no record for \<open>t\<close>, leave the record of \<open>t\<close> with count N and
  \<open>lastSeen\<close> the time of the last feed, and \<open>totalReads\<close> larger by N.
\<close>

theorem tag_record_counts:
  "map_of (tagCounts (recordTag now t s)) t =
     Some (case map_of (tagCounts s) t of
             None \<Rightarrow> \<lparr>id_tag = t, count = 1, lastSeen = now\<rparr>
           | Some r \<Rightarrow> r\<lparr>count := count r + 1, lastSeen := now\<rparr>)
   \<and> totalReads (recordTag now t s) = totalReads s + 1
   \<and> totalReads (processEvent parse now raw s) =
       totalReads s + length (extractAllTagIds (decode parse raw))
   \<and> (feeds \<noteq> [] \<and> (\<forall>f \<in> set feeds. extractAllTagIds (decode parse (snd f)) = [t])
        \<and> map_of (tagCounts s) t = None \<longrightarrow>
        map_of (tagCounts (run parse (map feed feeds) s)) t =
          Some \<lparr>id_tag = t, count = length feeds, lastSeen = fst (last feeds)\<rparr>
        \<and> totalReads (run parse (map feed feeds) s) = totalReads s + length feeds)"
proof (intro conjI impI)
  show "map_of (tagCounts (recordTag now t s)) t =
     Some (case map_of (tagCounts s) t of
             None \<Rightarrow> \<lparr>id_tag = t, count = 1, lastSeen = now\<rparr>
           | Some r \<Rightarrow> r\<lparr>count := count r + 1, lastSeen := now\<rparr>)"
    by (rule recordTag_lookup)
  show "totalReads (recordTag now t s) = totalReads s + 1"
    by (rule recordTag_totalReads)
  show "totalReads (processEvent parse now raw s) =
       totalReads s + length (extractAllTagIds (decode parse raw))"
    by (rule processEvent_counters)
next
  assume h: "feeds \<noteq> [] \<and> (\<forall>f \<in> set feeds. extractAllTagIds (decode parse (snd f)) = [t])
        \<and> map_of (tagCounts s) t = None"
  then have a: "feeds \<noteq> []"
    and b: "\<forall>f \<in> set feeds. extractAllTagIds (decode parse (snd f)) = [t]"
    and c: "map_of (tagCounts s) t = None" by simp_all
  from feeds_new [OF a b c]
  show "map_of (tagCounts (run parse (map feed feeds) s)) t =
          Some \<lparr>id_tag = t, count = length feeds, lastSeen = fst (last feeds)\<rparr>"
    and "totalReads (run parse (map feed feeds) s) = totalReads s + length feeds"
    by simp_all
qed

theorem tag_record_counts_witness:
  "map_of (tagCounts (run (\<lambda>r. None)
       (map feed [(js ''10:00:01'', js ''AAAA1111''), (js ''10:00:02'', js ''AAAA1111''),
                  (js ''10:00:03'', js '' AAAA1111'')]) initial)) (js ''AAAA1111'')
     = Some \<lparr>id_tag = js ''AAAA1111'', count = 3, lastSeen = js ''10:00:03''\<rparr>
   \<and> totalReads (run (\<lambda>r. None)
       (map feed [(js ''10:00:01'', js ''AAAA1111''), (js ''10:00:02'', js ''AAAA1111''),
                  (js ''10:00:03'', js '' AAAA1111'')]) initial) = 3"
proof -
  let ?feeds = "[(js ''10:00:01'', js ''AAAA1111''), (js ''10:00:02'', js ''AAAA1111''),
                  (js ''10:00:03'', js '' AAAA1111'')]"
  have a: "?feeds \<noteq> []" by simp
  have e1: "extractAllTagIds (decode (\<lambda>r. None) (js ''AAAA1111'')) = [js ''AAAA1111'']"
    by code_simp
  have e2: "extractAllTagIds (decode (\<lambda>r. None) (js '' AAAA1111'')) = [js ''AAAA1111'']"
    by code_simp
  have b: "\<forall>f \<in> set ?feeds. extractAllTagIds (decode (\<lambda>r. None) (snd f)) = [js ''AAAA1111'']"
    by (simp add: e1 e2)
  have c: "map_of (tagCounts initial) (js ''AAAA1111'') = None"
    by (simp add: initial_def)
  have z: "totalReads initial = 0"
    by (simp add: initial_def)
  from tag_record_counts [of "js ''10:00:01''" "js ''AAAA1111''" initial "\<lambda>r. None" "js ''AAAA1111''" ?feeds]
    a b c
  have "map_of (tagCounts (run (\<lambda>r. None) (map feed ?feeds) initial)) (js ''AAAA1111'') =
          Some \<lparr>id_tag = js ''AAAA1111'', count = length ?feeds, lastSeen = fst (last ?feeds)\<rparr>
        \<and> totalReads (run (\<lambda>r. None) (map feed ?feeds) initial) = totalReads initial + length ?feeds"
    by blast
  then show ?thesis by (simp add: z)
qed

text \<open>
  C10. After any sequence of \<open>processEvent\<close>, \<open>clearTags\<close> and \<open>clearEvents\<close> calls from
  the initial state, \<open>totalReads\<close> is the sum of the counts in the tag table:
  \<open>processEvent\<close> adds the number of ids it records to both, \<open>clearTags\<close> empties the
  table and zeroes the counter, \<open>clearEvents\<close> changes neither.
\<close>

theorem totalReads_is_sum_of_counts:
  "totalReads (run parse calls initial) = countSum (run parse calls initial)
   \<and> totalReads (processEvent parse now raw s) =
       totalReads s + length (extractAllTagIds (decode parse raw))
   \<and> countSum (processEvent parse now raw s) =
       countSum s + length (extractAllTagIds (decode parse raw))
   \<and> tagCounts (clearTags s) = [] \<and> totalReads (clearTags s) = 0
   \<and> tagCounts (clearEvents s) = tagCounts s \<and> totalReads (clearEvents s) = totalReads s"
proof (intro conjI)
  show "totalReads (run parse calls initial) = countSum (run parse calls initial)"
    by (rule run_counters) (simp add: initial_def countSum_def)
  show "totalReads (processEvent parse now raw s) =
       totalReads s + length (extractAllTagIds (decode parse raw))"
    by (rule processEvent_counters)
  show "countSum (processEvent parse now raw s) =
       countSum s + length (extractAllTagIds (decode parse raw))"
    by (rule processEvent_counters)
qed (simp_all add: clearTags_def clearEvents_def)

section \<open>Reconciliation\<close>

lemma getMaletaStatus_cases:
  "getMaletaStatus read m =
     (if expiredTags m \<noteq> {} then Red
      else if \<not> expectedTags m \<subseteq> set read then Blue
      else Green)"
proof -
  have "(filter (\<lambda>e. e \<notin> set read)
           (filter (\<lambda>s. length s > 0) (map trim (masterRfid m # productRfids m))) = [])
        = (expectedTags m \<subseteq> set read)"
    unfolding expectedTags_def filter_empty_conv by auto
  then show ?thesis
    by (auto simp add: getMaletaStatus_def expiredTags_def Let_def split: option.splits)
qed

lemma getExpectedTagUnion_expectedTags:
  "getExpectedTagUnion maletas = (\<Union>m \<in> set maletas. expectedTags m)"
  by (auto simp add: getExpectedTagUnion_def expectedTags_def)

lemma getMaletaStatus_not_Yellow: "getMaletaStatus read m \<noteq> Yellow"
  by (simp add: getMaletaStatus_cases)

lemma list_ex_map_eq: "list_ex (\<lambda>s. s = c) (map f xs) = (\<exists>x \<in> set xs. f x = c)"
  by (induction xs) auto

text \<open>
  C3. The status of a case is expired when the case flags some product tag as expired,
  whatever was read; otherwise incomplete when some expected tag (master or product,
  trimmed, not empty) is not among the tags read; otherwise complete. It depends on the
  expected tags as a set only: listing the master among the products, or a product twice,
  changes nothing. For the case with master \<open>M\<close> and products \<open>A, B\<close>: incomplete on
  reads \<open>M, A\<close>, complete on \<open>M, A, B\<close>, expired on \<open>M, A, B\<close> once \<open>A\<close> is flagged.
\<close>

theorem getMaletaStatus_precedence:
  "getMaletaStatus read m =
     (if expiredTags m \<noteq> {} then Red
      else if \<not> expectedTags m \<subseteq> set read then Blue
      else Green)
   \<and> getMaletaStatus read (m\<lparr>productRfids := masterRfid m # productRfids m @ productRfids m\<rparr>)
       = getMaletaStatus read m
   \<and> getMaletaStatus [js ''M'', js ''A'']
         \<lparr>id_maleta = js ''maleta_1'', masterRfid = js ''M'', productRfids = [js ''A'', js ''B''],
          createdAt = js ''2026'', expiredProductRfids = None\<rparr> = Blue
   \<and> getMaletaStatus [js ''M'', js ''A'', js ''B'']
         \<lparr>id_maleta = js ''maleta_1'', masterRfid = js ''M'', productRfids = [js ''A'', js ''B''],
          createdAt = js ''2026'', expiredProductRfids = None\<rparr> = Green
   \<and> getMaletaStatus [js ''M'', js ''A'', js ''B'']
         \<lparr>id_maleta = js ''maleta_1'', masterRfid = js ''M'', productRfids = [js ''A'', js ''B''],
          createdAt = js ''2026'', expiredProductRfids = Some [js ''A'']\<rparr> = Red"
proof (intro conjI)
  show "getMaletaStatus read m =
     (if expiredTags m \<noteq> {} then Red
      else if \<not> expectedTags m \<subseteq> set read then Blue
      else Green)"
    by (rule getMaletaStatus_cases)
  have "expectedTags (m\<lparr>productRfids := masterRfid m # productRfids m @ productRfids m\<rparr>)
        = expectedTags m"
    by (auto simp add: expectedTags_def)
  moreover have "expiredTags (m\<lparr>productRfids := masterRfid m # productRfids m @ productRfids m\<rparr>)
        = expiredTags m"
    by (simp add: expiredTags_def)
  ultimately
  show "getMaletaStatus read (m\<lparr>productRfids := masterRfid m # productRfids m @ productRfids m\<rparr>)
       = getMaletaStatus read m"
    by (simp add: getMaletaStatus_cases)
  show "getMaletaStatus [js ''M'', js ''A'']
         \<lparr>id_maleta = js ''maleta_1'', masterRfid = js ''M'', productRfids = [js ''A'', js ''B''],
          createdAt = js ''2026'', expiredProductRfids = None\<rparr> = Blue"
    by code_simp
  show "getMaletaStatus [js ''M'', js ''A'', js ''B'']
         \<lparr>id_maleta = js ''maleta_1'', masterRfid = js ''M'', productRfids = [js ''A'', js ''B''],
          createdAt = js ''2026'', expiredProductRfids = None\<rparr> = Green"
    by code_simp
  show "getMaletaStatus [js ''M'', js ''A'', js ''B'']
         \<lparr>id_maleta = js ''maleta_1'', masterRfid = js ''M'', productRfids = [js ''A'', js ''B''],
          createdAt = js ''2026'', expiredProductRfids = Some [js ''A'']\<rparr> = Red"
    by code_simp
qed

text \<open>
  C2. The aggregate status is complete when there are no cases; otherwise expired when
  some case flags a product tag as expired; otherwise anomalous when some non-empty tag
  read is not an expected tag of any case; otherwise incomplete when some case is
  incomplete; otherwise complete. With two complete cases and a further read \<open>X\<close> that no
  case lists, it is anomalous.
\<close>

theorem generalSemaphoreStatus_precedence:
  "generalSemaphoreStatus maletas read =
     (if maletas = [] then Green
      else if \<exists>m \<in> set maletas. expiredTags m \<noteq> {} then Red
      else if \<exists>r \<in> set read. r \<noteq> [] \<and> r \<notin> (\<Union>m \<in> set maletas. expectedTags m) then Yellow
      else if \<exists>m \<in> set maletas. getMaletaStatus read m = Blue then Blue
      else Green)
   \<and> generalSemaphoreStatus
         [\<lparr>id_maleta = js ''maleta_1'', masterRfid = js ''M'', productRfids = [js ''A'', js ''B''],
           createdAt = js ''2026'', expiredProductRfids = None\<rparr>,
          \<lparr>id_maleta = js ''maleta_2'', masterRfid = js ''N'', productRfids = [js ''C''],
           createdAt = js ''2026'', expiredProductRfids = None\<rparr>]
         [js ''M'', js ''A'', js ''B'', js ''N'', js ''C'', js ''X''] = Yellow"
proof (intro conjI)
  have red: "list_ex (\<lambda>s. s = Red) (map (getMaletaStatus read) maletas)
             = (\<exists>m \<in> set maletas. expiredTags m \<noteq> {})"
    by (auto simp add: list_ex_map_eq getMaletaStatus_cases)
  have yellow: "\<not> list_ex (\<lambda>s. s = Yellow) (map (getMaletaStatus read) maletas)"
    by (simp add: list_ex_map_eq getMaletaStatus_not_Yellow)
  have blue: "list_ex (\<lambda>s. s = Blue) (map (getMaletaStatus read) maletas)
             = (\<exists>m \<in> set maletas. getMaletaStatus read m = Blue)"
    by (rule list_ex_map_eq)
  have unknown: "maletas \<noteq> [] \<Longrightarrow> hasUnknownTagRead maletas read
             = (\<exists>r \<in> set read. r \<noteq> [] \<and> r \<notin> (\<Union>m \<in> set maletas. expectedTags m))"
    by (simp add: hasUnknownTagRead_def list_ex_iff getExpectedTagUnion_expectedTags)
  show "generalSemaphoreStatus maletas read =
     (if maletas = [] then Green
      else if \<exists>m \<in> set maletas. expiredTags m \<noteq> {} then Red
      else if \<exists>r \<in> set read. r \<noteq> [] \<and> r \<notin> (\<Union>m \<in> set maletas. expectedTags m) then Yellow
      else if \<exists>m \<in> set maletas. getMaletaStatus read m = Blue then Blue
      else Green)"
  proof (cases "maletas = []")
    case True
    then show ?thesis by (simp add: generalSemaphoreStatus_def)
  next
    case False
    with unknown have u: "hasUnknownTagRead maletas read
        = (\<exists>r \<in> set read. r \<noteq> [] \<and> r \<notin> (\<Union>m \<in> set maletas. expectedTags m))"
      by simp
    from yellow have y: "list_ex (\<lambda>s. s = Yellow) (map (getMaletaStatus read) maletas) = False"
      by simp
    from False have n: "(length maletas = 0) = False" "(maletas = []) = False"
      by simp_all
    show ?thesis
      by (simp only: generalSemaphoreStatus_def Let_def red blue u y n if_False)
  qed
  show "generalSemaphoreStatus
         [\<lparr>id_maleta = js ''maleta_1'', masterRfid = js ''M'', productRfids = [js ''A'', js ''B''],
           createdAt = js ''2026'', expiredProductRfids = None\<rparr>,
          \<lparr>id_maleta = js ''maleta_2'', masterRfid = js ''N'', productRfids = [js ''C''],
           createdAt = js ''2026'', expiredProductRfids = None\<rparr>]
         [js ''M'', js ''A'', js ''B'', js ''N'', js ''C'', js ''X''] = Yellow"
    by code_simp
qed

section \<open>The channel\<close>

text \<open>
  C1. After \<open>connectRealtime\<close> has opened both transports, let the \<open>WebSocket\<close> open and
  the \<open>EventSource\<close> then report an error: the \<open>WebSocket\<close> is open and the connected
  signal is false. The handler of the \<open>EventSource\<close> error sets the signal to false in
  every state, so also while the other transport is open; either open handler sets it to
  true.
\<close>

theorem sse_error_drops_signal_while_ws_open:
  "ws (foldl fire (connectRealtime True True True closedChannel) [WsOpen, SseError True]) = Some OPEN
   \<and> \<not> sseConnected (foldl fire (connectRealtime True True True closedChannel) [WsOpen, SseError True])
   \<and> \<not> sseConnected (fire c (SseError again))
   \<and> sseConnected (fire c SseOpen) \<and> sseConnected (fire c WsOpen)"
  by (simp add: connectRealtime_def disconnectRealtime_def closedChannel_def
      ws_onopen_def eventSource_onerror_def eventSource_onopen_def)

section \<open>The text format\<close>

lemma parseLoop_no_master:
  "list_all (\<lambda>line. \<not> startsWith line TXT_MAESTRO_PREFIX) lines \<Longrightarrow>
   parseLoop dateNow isoNow lines result None = result"
  by (induction lines) simp_all

text \<open>
  C5. When no trimmed line of the text starts with \<open>MAESTRO \<close>, parsing yields no case
  and the import leaves the stored cases as they were. In general the import replaces the
  stored cases by the parsed ones exactly when parsing yields at least one case.
\<close>

theorem import_replaces_only_on_success:
  "(list_all (\<lambda>line. \<not> startsWith line TXT_MAESTRO_PREFIX) (map trim (splitLines text)) \<longrightarrow>
      parseMaletasTxt dateNow isoNow text = []
      \<and> importMaletasFromFile dateNow isoNow text maletas = maletas)
   \<and> importMaletasFromFile dateNow isoNow text maletas =
       (if parseMaletasTxt dateNow isoNow text = [] then maletas
        else parseMaletasTxt dateNow isoNow text)"
proof (intro conjI impI)
  assume "list_all (\<lambda>line. \<not> startsWith line TXT_MAESTRO_PREFIX) (map trim (splitLines text))"
  then show e: "parseMaletasTxt dateNow isoNow text = []"
    unfolding parseMaletasTxt_def by (rule parseLoop_no_master)
  show "importMaletasFromFile dateNow isoNow text maletas = maletas"
    by (simp add: importMaletasFromFile_def e)
next
  show "importMaletasFromFile dateNow isoNow text maletas =
       (if parseMaletasTxt dateNow isoNow text = [] then maletas
        else parseMaletasTxt dateNow isoNow text)"
    by (simp add: importMaletasFromFile_def Let_def)
qed

theorem import_replaces_only_on_success_witness:
  "list_all (\<lambda>line. \<not> startsWith line TXT_MAESTRO_PREFIX)
     (map trim (splitLines (js ''# lista'' @ [CR, LF] @ js ''AAAA1111'' @ [LF] @ js ''MAESTRO'' @ [LF] @ js '' BBBB2222'')))
   \<and> parseMaletasTxt (\<lambda>k. 1700000000000) (\<lambda>k. js ''2026-01-01T00:00:00.000Z'')
        (js ''# lista'' @ [CR, LF] @ js ''AAAA1111'' @ [LF] @ js ''MAESTRO'' @ [LF] @ js '' BBBB2222'') = []
   \<and> importMaletasFromFile (\<lambda>k. 1700000000000) (\<lambda>k. js ''2026-01-01T00:00:00.000Z'')
        (js ''# lista'' @ [CR, LF] @ js ''AAAA1111'' @ [LF] @ js ''MAESTRO'' @ [LF] @ js '' BBBB2222'')
        [\<lparr>id_maleta = js ''maleta_1'', masterRfid = js ''M'', productRfids = [js ''A''],
          createdAt = js ''2026'', expiredProductRfids = None\<rparr>]
       = [\<lparr>id_maleta = js ''maleta_1'', masterRfid = js ''M'', productRfids = [js ''A''],
          createdAt = js ''2026'', expiredProductRfids = None\<rparr>]"
proof -
  have h: "list_all (\<lambda>line. \<not> startsWith line TXT_MAESTRO_PREFIX)
     (map trim (splitLines (js ''# lista'' @ [CR, LF] @ js ''AAAA1111'' @ [LF] @ js ''MAESTRO'' @ [LF] @ js '' BBBB2222'')))"
    by code_simp
  from import_replaces_only_on_success
         [of "js ''# lista'' @ [CR, LF] @ js ''AAAA1111'' @ [LF] @ js ''MAESTRO'' @ [LF] @ js '' BBBB2222''"
             "\<lambda>k. 1700000000000" "\<lambda>k. js ''2026-01-01T00:00:00.000Z''"
             "[\<lparr>id_maleta = js ''maleta_1'', masterRfid = js ''M'', productRfids = [js ''A''],
                createdAt = js ''2026'', expiredProductRfids = None\<rparr>]"] h
  show ?thesis by blast
qed

lemma trim_trimEnd: "trim s = trimEnd (dropWhile isWhiteSpace s)"
  by (simp add: trim_def trimEnd_def)

lemma trim_Nil [simp]: "trim [] = []"
  by (simp add: trim_def)

lemma isWhiteSpace_CR [simp]: "isWhiteSpace CR"
  by (simp add: isWhiteSpace_def CR_def)

lemma trim_snoc_ws: "isWhiteSpace c \<Longrightarrow> trim (s @ [c]) = trim s"
proof (cases "\<forall>x \<in> set s. isWhiteSpace x")
  case True
  assume "isWhiteSpace c"
  with True have a: "dropWhile isWhiteSpace (s @ [c]) = []"
    and b: "dropWhile isWhiteSpace s = []"
    by (auto dest: set_dropWhileD)
  show ?thesis unfolding trim_def a b by simp
next
  case False
  assume c: "isWhiteSpace c"
  from False have "dropWhile isWhiteSpace (s @ [c]) = dropWhile isWhiteSpace s @ [c]"
    by (auto simp add: dropWhile_append1)
  with c show ?thesis by (simp add: trim_def)
qed

lemma trim_chomp: "trim (chomp l) = trim l"
proof (cases "l \<noteq> [] \<and> last l = CR")
  case True
  then have "l = butlast l @ [CR]" by (metis append_butlast_last_id)
  then have "trim l = trim (butlast l)" by (metis trim_snoc_ws isWhiteSpace_CR)
  with True show ?thesis by (simp add: chomp_def)
next
  case False
  then show ?thesis by (auto simp add: chomp_def)
qed

lemma splitLines_line:
  "LF \<notin> set l \<Longrightarrow> splitLines (l @ LF # rest) = chomp l # splitLines rest"
proof (induction l)
  case Nil
  show ?case by (cases rest) (simp_all add: chomp_def LF_def CR_def)
next
  case (Cons c l)
  then have c: "c \<noteq> LF" and l: "LF \<notin> set l" by auto
  from Cons.IH [OF l] have IH: "splitLines (l @ LF # rest) = chomp l # splitLines rest" .
  show ?case
  proof (cases l)
    case Nil
    show ?thesis
    proof (cases "c = CR")
      case True
      then show ?thesis using Nil by (simp add: chomp_def)
    next
      case False
      then show ?thesis using Nil c IH by (simp add: chomp_def)
    qed
  next
    case (Cons c' l')
    with l have c': "c' \<noteq> LF" by auto
    from IH have "splitLines (c' # l' @ LF # rest) = chomp l # splitLines rest"
      by (simp add: Cons)
    with c c' show ?thesis
      by (simp add: Cons chomp_def)
  qed
qed

lemma splitLines_last: "LF \<notin> set l \<Longrightarrow> splitLines l = [l]"
proof (induction l rule: splitLines.induct)
  case 1
  show ?case by simp
next
  case (2 c)
  then show ?case by simp
next
  case (3 c c' cs)
  then have "c \<noteq> LF" "c' \<noteq> LF" "LF \<notin> set cs" by auto
  with 3 show ?case by simp
qed

lemma split_join:
  "ls \<noteq> [] \<Longrightarrow> \<forall>l \<in> set ls. LF \<notin> set l \<Longrightarrow> map trim (splitLines (joinLines ls)) = map trim ls"
proof (induction ls rule: joinLines.induct)
  case 1
  then show ?case by simp
next
  case (2 l)
  then show ?case by (simp add: splitLines_last)
next
  case (3 l l' ls)
  then show ?case by (simp add: splitLines_line trim_chomp)
qed

lemma dropWhile_hd: "s \<noteq> [] \<Longrightarrow> \<not> P (hd s) \<Longrightarrow> dropWhile P s = s"
  by (cases s) simp_all

lemma trimEnd_append:
  assumes "\<exists>x \<in> set m. \<not> isWhiteSpace x"
  shows "trimEnd (p @ m) = p @ trimEnd m"
proof -
  from assms obtain x where "x \<in> set (rev m)" and "\<not> isWhiteSpace x" by auto
  then have "dropWhile isWhiteSpace (rev m @ rev p) = dropWhile isWhiteSpace (rev m) @ rev p"
    by (rule dropWhile_append1)
  then show ?thesis by (simp add: trimEnd_def)
qed

lemma trimEnd_all_ws: "\<forall>x \<in> set s. isWhiteSpace x \<Longrightarrow> trimEnd s = []"
  by (simp add: trimEnd_def)

lemma trimEnd_idem: "trimEnd (trimEnd s) = trimEnd s"
  by (simp add: trimEnd_def)

lemma trimEnd_Cons_nonws: "\<not> isWhiteSpace x \<Longrightarrow> \<exists>y. trimEnd (x # b) = x # y"
proof (cases "\<exists>z \<in> set b. \<not> isWhiteSpace z")
  case True
  from trimEnd_append [OF True, of "[x]"] show ?thesis by simp
next
  case False
  assume "\<not> isWhiteSpace x"
  moreover from False have "dropWhile isWhiteSpace (rev b @ [x]) = dropWhile isWhiteSpace [x]"
    by (intro dropWhile_append2) auto
  ultimately have "trimEnd (x # b) = [x]"
    by (simp add: trimEnd_def)
  then show ?thesis by simp
qed

lemma trim_comm: "dropWhile isWhiteSpace (trimEnd s) = trimEnd (dropWhile isWhiteSpace s)"
proof (cases "\<forall>x \<in> set s. isWhiteSpace x")
  case True
  then have e: "dropWhile isWhiteSpace s = []" by simp
  from True have "trimEnd s = []" by (rule trimEnd_all_ws)
  then show ?thesis unfolding e by (auto simp add: trimEnd_def dest: set_dropWhileD)
next
  case False
  define a where "a = takeWhile isWhiteSpace s"
  define t where "t = dropWhile isWhiteSpace s"
  from False have tn: "t \<noteq> []" by (auto simp add: t_def)
  then obtain x b where t: "t = x # b" by (cases t) auto
  have x: "\<not> isWhiteSpace x"
    using hd_dropWhile [of isWhiteSpace s] tn by (simp add: t_def [symmetric] t)
  have s: "s = a @ x # b"
    by (simp add: a_def t [symmetric] t_def)
  have aw: "\<forall>z \<in> set a. isWhiteSpace z"
    by (auto simp add: a_def dest: set_takeWhileD)
  from trimEnd_Cons_nonws [OF x] obtain y where y: "trimEnd (x # b) = x # y" by blast
  have "trimEnd s = a @ trimEnd (x # b)"
    unfolding s by (rule trimEnd_append) (use x in auto)
  moreover from aw have "dropWhile isWhiteSpace (a @ x # y) = dropWhile isWhiteSpace (x # y)"
    by (intro dropWhile_append2) auto
  ultimately have "dropWhile isWhiteSpace (trimEnd s) = x # y"
    using x by (simp add: y)
  moreover have "trimEnd (dropWhile isWhiteSpace s) = x # y"
    by (simp add: t_def [symmetric] t y)
  ultimately show ?thesis by simp
qed

lemma trim_trimEnd_arg: "trim (trimEnd m) = trim m"
  by (simp add: trim_trimEnd trim_comm trimEnd_idem)

lemma trim_idem: "trim (trim s) = trim s"
proof -
  have "trim (trim s) = trim (dropWhile isWhiteSpace s)"
    unfolding trim_trimEnd [of s] by (rule trim_trimEnd_arg)
  also have "\<dots> = trim s"
    by (simp add: trim_trimEnd)
  finally show ?thesis .
qed

lemma set_trim: "set (trim s) \<subseteq> set s"
  by (auto simp add: trim_def dest!: set_dropWhileD)

lemma trim_nonempty: "trim s \<noteq> [] \<Longrightarrow> \<exists>x \<in> set s. \<not> isWhiteSpace x"
proof (rule ccontr)
  assume n: "trim s \<noteq> []" and "\<not> (\<exists>x \<in> set s. \<not> isWhiteSpace x)"
  then have "dropWhile isWhiteSpace s = []" by simp
  then have "trim s = []" unfolding trim_def by (auto dest: set_dropWhileD)
  with n show False by simp
qed

lemma trim_prefixed:
  assumes "p \<noteq> []" and "\<not> isWhiteSpace (hd p)" and "trim m \<noteq> []"
  shows "trim (p @ m) = p @ trimEnd m"
proof -
  from assms(1,2) have "dropWhile isWhiteSpace (p @ m) = p @ m"
    by (intro dropWhile_hd) simp_all
  then show ?thesis
    by (simp add: trim_trimEnd trimEnd_append [OF trim_nonempty [OF assms(3)]])
qed

lemma parseLoop_products:
  assumes "\<forall>q \<in> set qs. productLine q" and "i < length res"
  shows "parseLoop dateNow isoNow (qs @ rest) res (Some i) =
         parseLoop dateNow isoNow rest
           (res[i := (res ! i)\<lparr>productRfids := productRfids (res ! i) @ qs\<rparr>]) (Some i)"
  using assms
proof (induction qs arbitrary: res)
  case Nil
  then show ?case by simp
next
  case (Cons q qs)
  then have q: "productLine q" and qs: "\<forall>q \<in> set qs. productLine q" by simp_all
  let ?res = "res[i := (res ! i)\<lparr>productRfids := productRfids (res ! i) @ [q]\<rparr>]"
  from Cons.prems(2) have len: "i < length ?res" by simp
  have "parseLoop dateNow isoNow ((q # qs) @ rest) res (Some i) =
        parseLoop dateNow isoNow (qs @ rest) ?res (Some i)"
    using q by (simp add: productLine_def)
  also have "\<dots> = parseLoop dateNow isoNow rest
       (?res[i := (?res ! i)\<lparr>productRfids := productRfids (?res ! i) @ qs\<rparr>]) (Some i)"
    by (rule Cons.IH [OF qs len])
  also have "?res[i := (?res ! i)\<lparr>productRfids := productRfids (?res ! i) @ qs\<rparr>] =
             res[i := (res ! i)\<lparr>productRfids := productRfids (res ! i) @ q # qs\<rparr>]"
    using Cons.prems(2) by simp
  finally show ?case .
qed

lemma prefix_facts:
  "TXT_MAESTRO_PREFIX \<noteq> []" "\<not> isWhiteSpace (hd TXT_MAESTRO_PREFIX)"
  "length TXT_MAESTRO_PREFIX = 8" "hd TXT_MAESTRO_PREFIX \<noteq> hd (js ''#'')"
  by (simp_all add: TXT_MAESTRO_PREFIX_def js_def isWhiteSpace_def)

lemma master_line:
  assumes "trim m \<noteq> []"
  shows "trim (TXT_MAESTRO_PREFIX @ m) \<noteq> []"
    and "\<not> startsWith (trim (TXT_MAESTRO_PREFIX @ m)) (js ''#'')"
    and "startsWith (trim (TXT_MAESTRO_PREFIX @ m)) TXT_MAESTRO_PREFIX"
    and "trim (drop (length TXT_MAESTRO_PREFIX) (trim (TXT_MAESTRO_PREFIX @ m))) = trim m"
proof -
  have t: "trim (TXT_MAESTRO_PREFIX @ m) = TXT_MAESTRO_PREFIX @ trimEnd m"
    by (rule trim_prefixed [OF prefix_facts(1,2) assms])
  show "trim (TXT_MAESTRO_PREFIX @ m) \<noteq> []"
    by (simp add: t prefix_facts)
  show "\<not> startsWith (trim (TXT_MAESTRO_PREFIX @ m)) (js ''#'')"
    unfolding t by (simp add: startsWith_def TXT_MAESTRO_PREFIX_def js_def)
  show "startsWith (trim (TXT_MAESTRO_PREFIX @ m)) TXT_MAESTRO_PREFIX"
    by (simp add: t startsWith_def)
  show "trim (drop (length TXT_MAESTRO_PREFIX) (trim (TXT_MAESTRO_PREFIX @ m))) = trim m"
    by (simp add: t trim_trimEnd_arg)
qed

lemma parseLoop_case:
  assumes "exportable m"
  shows "parseLoop dateNow isoNow (map trim (exportCase m) @ rest) res cur =
         parseLoop dateNow isoNow rest (res @ reimported dateNow isoNow (length res) [m])
           (Some (length res))"
proof -
  from assms have m: "trim (masterRfid m) \<noteq> []"
    and ps: "\<forall>q \<in> set (map trim (productRfids m)). productLine q"
    by (auto simp add: exportable_def productLine_def list_all_iff)
  let ?item = "\<lparr>id_maleta = js ''maleta_'' @ decimal (dateNow (length res)) @ js ''_''
                              @ decimal (length res),
                 masterRfid = trim (masterRfid m), productRfids = [],
                 createdAt = isoNow (length res), expiredProductRfids = None\<rparr>"
  have lines: "map trim (exportCase m) @ rest =
     trim (TXT_MAESTRO_PREFIX @ masterRfid m) # (map trim (productRfids m) @ [] # rest)"
    by (simp add: exportCase_def trim_idem)
  have "parseLoop dateNow isoNow (map trim (exportCase m) @ rest) res cur =
        parseLoop dateNow isoNow (map trim (productRfids m) @ [] # rest) (res @ [?item])
          (Some (length res))"
    unfolding lines using master_line [OF m] m by (simp add: Let_def)
  also have "\<dots> = parseLoop dateNow isoNow ([] # rest)
       ((res @ [?item])[length res := ((res @ [?item]) ! length res)
          \<lparr>productRfids := productRfids ((res @ [?item]) ! length res) @ map trim (productRfids m)\<rparr>])
       (Some (length res))"
    by (rule parseLoop_products [OF ps]) simp
  also have "\<dots> = parseLoop dateNow isoNow rest
       (res @ reimported dateNow isoNow (length res) [m]) (Some (length res))"
    by simp
  finally show ?thesis .
qed

lemma parseLoop_cases:
  assumes "list_all exportable ms"
  shows "parseLoop dateNow isoNow (concat (map (\<lambda>m. map trim (exportCase m)) ms)) res cur =
         res @ reimported dateNow isoNow (length res) ms"
  using assms
proof (induction ms arbitrary: res cur)
  case Nil
  show ?case by simp
next
  case (Cons m ms)
  then have m: "exportable m" and ms: "list_all exportable ms" by simp_all
  have "parseLoop dateNow isoNow (concat (map (\<lambda>m. map trim (exportCase m)) (m # ms))) res cur =
        parseLoop dateNow isoNow
          (map trim (exportCase m) @ concat (map (\<lambda>m. map trim (exportCase m)) ms)) res cur"
    by simp
  also have "\<dots> = parseLoop dateNow isoNow (concat (map (\<lambda>m. map trim (exportCase m)) ms))
        (res @ reimported dateNow isoNow (length res) [m]) (Some (length res))"
    by (rule parseLoop_case [OF m])
  also have "\<dots> = (res @ reimported dateNow isoNow (length res) [m])
        @ reimported dateNow isoNow (length (res @ reimported dateNow isoNow (length res) [m])) ms"
    by (rule Cons.IH [OF ms])
  also have "\<dots> = res @ reimported dateNow isoNow (length res) (m # ms)"
    by simp
  finally show ?case .
qed

lemma header_trimmed: "map trim exportHeader = exportHeader"
  by code_simp

lemma parseLoop_header:
  "parseLoop dateNow isoNow (exportHeader @ rest) [] None = parseLoop dateNow isoNow rest [] None"
  by (simp add: exportHeader_def startsWith_def js_def)

lemma header_no_LF: "\<forall>l \<in> set exportHeader. LF \<notin> set l"
  by (simp add: exportHeader_def js_def LF_def)

lemma exportCase_no_LF:
  assumes "exportable m"
  shows "\<forall>l \<in> set (exportCase m). LF \<notin> set l"
proof -
  have "LF \<notin> set TXT_MAESTRO_PREFIX"
    by (simp add: TXT_MAESTRO_PREFIX_def js_def LF_def)
  moreover from assms have "LF \<notin> set (masterRfid m)"
    and "\<forall>p \<in> set (productRfids m). LF \<notin> set p"
    by (auto simp add: exportable_def list_all_iff)
  ultimately show ?thesis
    using set_trim by (auto simp add: exportCase_def)
qed

lemma roundtrip:
  assumes "list_all exportable ms"
  shows "parseMaletasTxt dateNow isoNow (exportMaletasToTxt ms) = reimported dateNow isoNow 0 ms"
proof -
  have ne: "exportLines ms \<noteq> []"
    by (simp add: exportLines_def exportHeader_def)
  have lf: "\<forall>l \<in> set (exportLines ms). LF \<notin> set l"
    using assms header_no_LF exportCase_no_LF
    by (auto simp add: exportLines_def list_all_iff)
  have "map trim (splitLines (exportMaletasToTxt ms)) = map trim (exportLines ms)"
    unfolding exportMaletasToTxt_def by (rule split_join [OF ne lf])
  also have "\<dots> = exportHeader @ concat (map (\<lambda>m. map trim (exportCase m)) ms)"
    by (simp add: exportLines_def header_trimmed map_concat comp_def)
  finally show ?thesis
    by (simp add: parseMaletasTxt_def parseLoop_header parseLoop_cases [OF assms])
qed

lemma contents_reimported:
  "map contents (reimported dateNow isoNow k ms) =
   map (\<lambda>m. (trim (masterRfid m), map trim (productRfids m))) ms"
  by (induction ms arbitrary: k) (simp_all add: contents_def)

text \<open>
  C4. For every collection of exportable cases, parsing the exported text yields the
  cases in the same order, each with its master tag trimmed and its product tags trimmed,
  in their order; so a collection whose tags carry no surrounding white space comes back
  with the same master tags and the same product tags. Ids and timestamps are new and the
  expired flags are gone.
\<close>

theorem export_parse_roundtrip:
  assumes "list_all exportable maletas"
  shows "parseMaletasTxt dateNow isoNow (exportMaletasToTxt maletas) = reimported dateNow isoNow 0 maletas
    \<and> map contents (parseMaletasTxt dateNow isoNow (exportMaletasToTxt maletas)) =
        map (\<lambda>m. (trim (masterRfid m), map trim (productRfids m))) maletas
    \<and> (list_all trimmedCase maletas \<longrightarrow>
        map contents (parseMaletasTxt dateNow isoNow (exportMaletasToTxt maletas)) = map contents maletas)"
proof (intro conjI impI)
  show r: "parseMaletasTxt dateNow isoNow (exportMaletasToTxt maletas) = reimported dateNow isoNow 0 maletas"
    by (rule roundtrip [OF assms])
  show c: "map contents (parseMaletasTxt dateNow isoNow (exportMaletasToTxt maletas)) =
        map (\<lambda>m. (trim (masterRfid m), map trim (productRfids m))) maletas"
    unfolding r by (rule contents_reimported)
  assume "list_all trimmedCase maletas"
  then have "map (\<lambda>m. (trim (masterRfid m), map trim (productRfids m))) maletas = map contents maletas"
    by (auto simp add: list_all_iff trimmedCase_def contents_def map_idI)
  with c show "map contents (parseMaletasTxt dateNow isoNow (exportMaletasToTxt maletas)) = map contents maletas"
    by simp
qed

theorem export_parse_roundtrip_witness:
  "list_all exportable
     [\<lparr>id_maleta = js ''maleta_1'', masterRfid = js ''M1'', productRfids = [js ''A1'', js ''B2''],
       createdAt = js ''2025'', expiredProductRfids = Some [js ''A1'']\<rparr>,
      \<lparr>id_maleta = js ''maleta_2'', masterRfid = js ''M2'', productRfids = [],
       createdAt = js ''2025'', expiredProductRfids = None\<rparr>]
   \<and> list_all trimmedCase
     [\<lparr>id_maleta = js ''maleta_1'', masterRfid = js ''M1'', productRfids = [js ''A1'', js ''B2''],
       createdAt = js ''2025'', expiredProductRfids = Some [js ''A1'']\<rparr>,
      \<lparr>id_maleta = js ''maleta_2'', masterRfid = js ''M2'', productRfids = [],
       createdAt = js ''2025'', expiredProductRfids = None\<rparr>]
   \<and> map contents (parseMaletasTxt sampleDateNow sampleIsoNow (exportMaletasToTxt
     [\<lparr>id_maleta = js ''maleta_1'', masterRfid = js ''M1'', productRfids = [js ''A1'', js ''B2''],
       createdAt = js ''2025'', expiredProductRfids = Some [js ''A1'']\<rparr>,
      \<lparr>id_maleta = js ''maleta_2'', masterRfid = js ''M2'', productRfids = [],
       createdAt = js ''2025'', expiredProductRfids = None\<rparr>]))
     = [(js ''M1'', [js ''A1'', js ''B2'']), (js ''M2'', [])]"
proof -
  let ?ms = "[\<lparr>id_maleta = js ''maleta_1'', masterRfid = js ''M1'', productRfids = [js ''A1'', js ''B2''],
       createdAt = js ''2025'', expiredProductRfids = Some [js ''A1'']\<rparr>,
      \<lparr>id_maleta = js ''maleta_2'', masterRfid = js ''M2'', productRfids = [],
       createdAt = js ''2025'', expiredProductRfids = None\<rparr>]"
  have e: "list_all exportable ?ms" by code_simp
  have t: "list_all trimmedCase ?ms" by code_simp
  from export_parse_roundtrip [OF e, of sampleDateNow sampleIsoNow] t
  have "map contents (parseMaletasTxt sampleDateNow sampleIsoNow (exportMaletasToTxt ?ms)) = map contents ?ms"
    by blast
  with e t show ?thesis by (simp add: contents_def)
qed

text \<open>
  C4 as first stated, for every collection, does not hold: a product tag that starts with
  \<open>#\<close> is exported as a line that the parser skips as a comment, and the case comes
  back without it.
\<close>

theorem export_parse_drops_comment_like_tag:
  "map contents (parseMaletasTxt sampleDateNow sampleIsoNow (exportMaletasToTxt
     [\<lparr>id_maleta = js ''maleta_1'', masterRfid = js ''M1'', productRfids = [js ''#A''],
       createdAt = js ''2025'', expiredProductRfids = None\<rparr>]))
     = [(js ''M1'', [])]
   \<and> map contents (parseMaletasTxt sampleDateNow sampleIsoNow (exportMaletasToTxt
     [\<lparr>id_maleta = js ''maleta_1'', masterRfid = js ''M1'', productRfids = [js ''#A''],
       createdAt = js ''2025'', expiredProductRfids = None\<rparr>]))
     \<noteq> map contents
     [\<lparr>id_maleta = js ''maleta_1'', masterRfid = js ''M1'', productRfids = [js ''#A''],
       createdAt = js ''2025'', expiredProductRfids = None\<rparr>]"
proof -
  have r: "map contents (parseMaletasTxt sampleDateNow sampleIsoNow (exportMaletasToTxt
     [\<lparr>id_maleta = js ''maleta_1'', masterRfid = js ''M1'', productRfids = [js ''#A''],
       createdAt = js ''2025'', expiredProductRfids = None\<rparr>]))
     = [(js ''M1'', [])]"
    by code_simp
  show ?thesis unfolding r by (simp add: contents_def)
qed

text \<open>
  The other conditions of \<open>exportable\<close> are needed as well: a product tag that starts
  with \<open>MAESTRO \<close> comes back as a case of its own, a blank product tag is lost, an empty
  master tag turns its case into product tags of the case before, and a line feed splits a
  tag in two.
\<close>

lemma export_parse_outside_exportable:
  "map contents (parseMaletasTxt sampleDateNow sampleIsoNow (exportMaletasToTxt
     [\<lparr>id_maleta = js ''maleta_1'', masterRfid = js ''M1'', productRfids = [js ''MAESTRO X''],
       createdAt = js ''2025'', expiredProductRfids = None\<rparr>]))
     = [(js ''M1'', []), (js ''X'', [])]
   \<and> map contents (parseMaletasTxt sampleDateNow sampleIsoNow (exportMaletasToTxt
     [\<lparr>id_maleta = js ''maleta_1'', masterRfid = js ''M1'', productRfids = [js '' ''],
       createdAt = js ''2025'', expiredProductRfids = None\<rparr>]))
     = [(js ''M1'', [])]
   \<and> map contents (parseMaletasTxt sampleDateNow sampleIsoNow (exportMaletasToTxt
     [\<lparr>id_maleta = js ''maleta_1'', masterRfid = js ''M1'', productRfids = [js ''A''],
       createdAt = js ''2025'', expiredProductRfids = None\<rparr>,
      \<lparr>id_maleta = js ''maleta_2'', masterRfid = js '''', productRfids = [js ''B''],
       createdAt = js ''2025'', expiredProductRfids = None\<rparr>]))
     = [(js ''M1'', [js ''A'', js ''MAESTRO'', js ''B''])]
   \<and> map contents (parseMaletasTxt sampleDateNow sampleIsoNow (exportMaletasToTxt
     [\<lparr>id_maleta = js ''maleta_1'', masterRfid = js ''M1'', productRfids = [js ''A'' @ [LF] @ js ''B''],
       createdAt = js ''2025'', expiredProductRfids = None\<rparr>]))
     = [(js ''M1'', [js ''A'', js ''B''])]"
  by code_simp

end
